theory Spec2Isabelle
  imports Complex_Main "HOL-Library.AList"
begin

section \<open>Matrix generators of SO(3) irreducible representations\<close>

text \<open>
  A shallow embedding of the notebook \<^verbatim>\<open>notebooks/irreps.ipynb\<close>: the functions
  \<^verbatim>\<open>initialize_generators\<close>, \<^verbatim>\<open>initialize_eigenstates\<close>,
  \<^verbatim>\<open>reassemble_mat_from_sols\<close> and \<^verbatim>\<open>form_matrix_irrep_so3\<close>.

  Conventions of the embedding.
  \<^item> Numbers. The notebook computes with double-precision complex numbers and hands the
    solved entries to \<^verbatim>\<open>sp.nsimplify\<close>, which replaces a decimal value by the exact
    algebraic number it stands for. The embedding computes with the exact numbers from the
    start: a Python number is a \<^typ>\<open>real\<close>, an entry of a \<^verbatim>\<open>dtype=complex\<close> array is a
    \<^typ>\<open>complex\<close>, the power \<^verbatim>\<open>**(1/2)\<close> is the principal square root, and
    \<^verbatim>\<open>sp.nsimplify\<close> is the identity on exact numbers. The rounding of doubles is not
    modelled. The dimension \<^verbatim>\<open>int(2*j+1)\<close> and the length of \<^verbatim>\<open>js\<close> are those of the code
    wherever the double \<^verbatim>\<open>2*j+1\<close> rounds to the same side of the integers as the exact
    \<open>2j + 1\<close>: at every integer and half-integer \<open>j\<close>, where the arithmetic on \<open>j\<close> is exact,
    and at every \<open>j\<close> that is not within rounding distance of one. The theorems about the
    function speak of such inputs only.
  \<^item> Matrices. A matrix is the list of its rows; a column vector is the list of its entries.
  \<^item> Symbols. \<^verbatim>\<open>sp.symbols('x:N')\<close> makes the symbols \<^verbatim>\<open>x0 .. x(N-1)\<close>; a symbol is
    represented by its index, which is what the sort key \<^verbatim>\<open>int(str(item[0])[1:])\<close> reads off.
  \<^item> Exceptions are values of type \<open>error + 'a\<close>, \<open>Inl\<close> carrying the exception.
  \<^item> Python list objects live in a store, so that \<^verbatim>\<open>copy\<close> and \<^verbatim>\<open>pop(0)\<close> act on
    addresses as they do in Python.
\<close>

subsection \<open>Exceptions\<close>

datatype error =
    IndexError    \<comment> \<open>pop from an empty list, list index out of range\<close>
  | ValueError    \<comment> \<open>negative dimension in numpy, wrong number of entries in \<^verbatim>\<open>sp.Matrix\<close>\<close>
  | Unsupported   \<comment> \<open>a system outside the fragment of \<^verbatim>\<open>sp.solve\<close> that is modelled\<close>

definition ebind :: "error + 'a \<Rightarrow> ('a \<Rightarrow> error + 'b) \<Rightarrow> error + 'b" where
  "ebind m f = (case m of Inl e \<Rightarrow> Inl e | Inr x \<Rightarrow> f x)"

subsection \<open>Python lists\<close>

text \<open>\<^verbatim>\<open>xs[i]\<close>: a negative index counts from the end, an index out of range raises.\<close>

definition py_index :: "'a list \<Rightarrow> int \<Rightarrow> error + 'a" where
  "py_index xs i =
     (let n = int (length xs); i' = (if i < 0 then n + i else i)
      in if 0 \<le> i' \<and> i' < n then Inr (xs ! nat i') else Inl IndexError)"

text \<open>The store of list objects: the address of a list is its position in the store.\<close>

type_synonym 'a store = "'a list list"

definition copy :: "nat \<Rightarrow> 'a store \<Rightarrow> nat \<times> 'a store" where
  \<comment> \<open>\<^verbatim>\<open>copy(xs)\<close>: a new list object with the same elements\<close>
  "copy a h = (length h, h @ [h ! a])"

definition pop0 :: "nat \<Rightarrow> 'a store \<Rightarrow> error + ('a \<times> 'a store)" where
  \<comment> \<open>\<^verbatim>\<open>xs.pop(0)\<close>\<close>
  "pop0 a h = (case h ! a of [] \<Rightarrow> Inl IndexError | x # xs \<Rightarrow> Inr (x, h[a := xs]))"

subsection \<open>\<^verbatim>\<open>initialize_generators\<close>\<close>

text \<open>The innermost loop: \<^verbatim>\<open>for _ in range(D): cols.append(symbols_copy.pop(0))\<close>.\<close>

fun pop_cols :: "nat \<Rightarrow> nat \<Rightarrow> 'a store \<Rightarrow> error + ('a list \<times> 'a store)" where
  "pop_cols 0 a h = Inr ([], h)"
| "pop_cols (Suc n) a h =
     ebind (pop0 a h) (\<lambda>(x, h1).
     ebind (pop_cols n a h1) (\<lambda>(cols, h2). Inr (x # cols, h2)))"

text \<open>The middle loop: \<^verbatim>\<open>for _ in range(D): ...; rows.append(cols)\<close>.\<close>

fun pop_rows :: "nat \<Rightarrow> nat \<Rightarrow> nat \<Rightarrow> 'a store \<Rightarrow> error + ('a list list \<times> 'a store)" where
  "pop_rows 0 D a h = Inr ([], h)"
| "pop_rows (Suc n) D a h =
     ebind (pop_cols D a h) (\<lambda>(cols, h1).
     ebind (pop_rows n D a h1) (\<lambda>(rows, h2). Inr (cols # rows, h2)))"

text \<open>The outer loop: \<^verbatim>\<open>for _ in range(1, 3): ...; generators.append(sp.Matrix(rows))\<close>.\<close>

fun pop_generators ::
  "nat \<Rightarrow> nat \<Rightarrow> nat \<Rightarrow> 'a store \<Rightarrow> error + ('a list list list \<times> 'a store)" where
  "pop_generators 0 D a h = Inr ([], h)"
| "pop_generators (Suc n) D a h =
     ebind (pop_rows D D a h) (\<lambda>(rows, h1).
     ebind (pop_generators n D a h1) (\<lambda>(generators, h2). Inr (rows # generators, h2)))"

text \<open>
  \<^verbatim>\<open>initialize_generators(D, symbols_list)\<close>, with \<open>symbols_list\<close> the address of the
  caller's list. \<^verbatim>\<open>range(D)\<close> runs \<open>nat D\<close> times (not at all for \<open>D \<le> 0\<close>). The result
  is the list of the two matrices and the store after the call.
\<close>

definition initialize_generators ::
  "int \<Rightarrow> nat \<Rightarrow> 'a store \<Rightarrow> error + ('a list list list \<times> 'a store)" where
  "initialize_generators D symbols_list h =
     (let (symbols_copy, h1) = copy symbols_list h
      in pop_generators 2 (nat D) symbols_copy h1)"

subsection \<open>\<^verbatim>\<open>initialize_eigenstates\<close>\<close>

definition shape1 :: "'a list list \<Rightarrow> nat" where
  \<comment> \<open>\<^verbatim>\<open>eigenstates.shape[1]\<close>, the number of columns\<close>
  "shape1 M = (case M of [] \<Rightarrow> 0 | r # _ \<Rightarrow> length r)"

definition initialize_eigenstates :: "'a list list \<Rightarrow> 'a list list" where
  \<comment> \<open>one column vector \<^verbatim>\<open>eigenstates[:, j]\<close> for each column \<open>j\<close>\<close>
  "initialize_eigenstates eigenstates =
     map (\<lambda>j. map (\<lambda>row. row ! j) eigenstates) [0..<shape1 eigenstates]"

subsection \<open>\<^verbatim>\<open>reassemble_mat_from_sols\<close>\<close>

datatype symbol = Sym nat  \<comment> \<open>the symbol \<^verbatim>\<open>x<n>\<close>\<close>

fun symbol_index :: "symbol \<Rightarrow> nat" where
  \<comment> \<open>\<^verbatim>\<open>int(str(s)[1:])\<close>\<close>
  "symbol_index (Sym n) = n"

text \<open>
  A Python dict is an association list with distinct keys, in insertion order: writing an
  existing key replaces its value in place, a new key goes to the end.
\<close>

definition merged_dict :: "('k \<times> 'v) list list \<Rightarrow> ('k \<times> 'v) list" where
  \<comment> \<open>\<^verbatim>\<open>{key: value for d in sols for key, value in d.items()}\<close>\<close>
  "merged_dict sols = foldl (\<lambda>d (key, val). AList.update key val d) [] (concat sols)"

definition Matrix :: "int \<Rightarrow> int \<Rightarrow> 'a list \<Rightarrow> error + 'a list list" where
  \<comment> \<open>\<^verbatim>\<open>sp.Matrix(rows, cols, flat)\<close>: the flat list laid out row by row\<close>
  "Matrix r c flat =
     (if r < 0 \<or> c < 0 \<or> int (length flat) \<noteq> r * c then Inl ValueError
      else Inr (map (\<lambda>i. take (nat c) (drop (i * nat c) flat)) [0..<nat r]))"

definition reassemble_mat_from_sols ::
  "int \<Rightarrow> (symbol \<times> 'v) list list \<Rightarrow> error + 'v list list" where
  "reassemble_mat_from_sols D sols =
     (let merged = merged_dict sols;
          sorted_dict = sort_key (\<lambda>item. symbol_index (fst item)) merged;
          sorted_vals = map snd sorted_dict
      in Matrix D D sorted_vals)"

subsection \<open>numpy and sympy primitives\<close>

definition trunc :: "real \<Rightarrow> int" where
  \<comment> \<open>Python's \<^verbatim>\<open>int(x)\<close> on a float: rounds towards zero\<close>
  "trunc x = (if 0 \<le> x then \<lfloor>x\<rfloor> else \<lceil>x\<rceil>)"

definition arange :: "real \<Rightarrow> real \<Rightarrow> real \<Rightarrow> complex list" where
  \<comment> \<open>\<^verbatim>\<open>np.arange(start, stop, step, dtype=complex)\<close> for a step other than 0:
      \<open>\<lceil>(stop - start) / step\<rceil>\<close> elements, none when that is not positive; the quotient
      is the exact one, which numpy computes in doubles\<close>
  "arange start stop step =
     map (\<lambda>i. complex_of_real (start + real i * step)) [0..<nat \<lceil>(stop - start) / step\<rceil>]"

definition diag :: "complex list \<Rightarrow> complex list list" where
  \<comment> \<open>\<^verbatim>\<open>np.diag(v)\<close> of a one-dimensional array\<close>
  "diag v = map (\<lambda>i. map (\<lambda>k. if i = k then v ! i else 0) [0..<length v]) [0..<length v]"

definition eye :: "int \<Rightarrow> error + complex list list" where
  \<comment> \<open>\<^verbatim>\<open>np.eye(D, dtype=complex)\<close>; a negative dimension raises \<^verbatim>\<open>ValueError\<close>\<close>
  "eye D = (if D < 0 then Inl ValueError
            else Inr (map (\<lambda>i. map (\<lambda>k. if i = k then 1 else 0) [0..<nat D]) [0..<nat D]))"

definition zeros :: "int \<Rightarrow> error + complex list" where
  \<comment> \<open>\<^verbatim>\<open>np.zeros(D, dtype=complex)\<close>\<close>
  "zeros D = (if D < 0 then Inl ValueError else Inr (replicate (nat D) 0))"

definition cle :: "complex \<Rightarrow> complex \<Rightarrow> bool" where
  \<comment> \<open>\<^verbatim>\<open><=\<close> on numpy complex scalars: lexicographic on real and imaginary part\<close>
  "cle a b = (Re a < Re b \<or> (Re a = Re b \<and> Im a \<le> Im b))"

definition smult :: "complex \<Rightarrow> complex list \<Rightarrow> complex list" where
  "smult c v = map (\<lambda>x. c * x) v"

definition vneg :: "complex list \<Rightarrow> complex list" where
  "vneg v = map uminus v"

definition vadd :: "complex list \<Rightarrow> complex list \<Rightarrow> complex list" where
  "vadd u v = map2 (+) u v"

definition vsub :: "complex list \<Rightarrow> complex list \<Rightarrow> complex list" where
  "vsub u v = map2 (-) u v"

text \<open>
  A linear expression \<open>c\<^sub>1 \<cdot> s\<^sub>1 + \<dots> + c\<^sub>n \<cdot> s\<^sub>n + b\<close> in symbols is the list of its
  terms with the constant \<open>b\<close>. sympy drops a product with the factor 0, so a row of symbols
  times a numeric column keeps the symbols at the non-zero entries only. The function
  multiplies and adds a \<open>D \<times> D\<close> matrix and columns of length \<open>D\<close> only, all built from the
  same \<open>D\<close>, so sympy's shape error cannot arise and the vector operations are written on
  lists of equal length.
\<close>

type_synonym lin = "(symbol \<times> complex) list \<times> complex"

definition equation ::
  "complex \<Rightarrow> symbol list list \<Rightarrow> complex list \<Rightarrow> complex list \<Rightarrow> lin list" where
  \<comment> \<open>the column \<^verbatim>\<open>prefactor*generators[i]*symbolic_eigenstates[k] + rhs\<close>, row by row\<close>
  "equation prefactor G e rhs =
     map2 (\<lambda>row b. (filter (\<lambda>(s, c). c \<noteq> 0) (map2 (\<lambda>s x. (s, prefactor * x)) row e), b))
          G rhs"

text \<open>
  \<^verbatim>\<open>sp.solve(system, symbols, dict=True)\<close> is modelled on decoupled systems: every equation
  is \<open>c \<cdot> s + b = 0\<close> with one unknown \<open>s\<close> among \<open>symbols\<close> and \<open>c \<noteq> 0\<close>, and no unknown
  occurs in two equations. Such a system has the one solution \<open>s = - b / c\<close> for each
  equation, and the symbols that occur in no equation are left out of the solution.
  On any other system the model answers \<open>Unsupported\<close>.
\<close>

fun solve_rows :: "lin list \<Rightarrow> symbol list \<Rightarrow> (symbol \<times> complex) list option" where
  "solve_rows [] symbols = Some []"
| "solve_rows (([(s, c)], b) # eqs) symbols =
     (if c \<noteq> 0 \<and> s \<in> set symbols
      then (case solve_rows eqs symbols of
              None \<Rightarrow> None
            | Some sol \<Rightarrow> if s \<in> fst ` set sol then None else Some ((s, - b / c) # sol))
      else None)"
| "solve_rows (_ # eqs) symbols = None"

definition solve :: "lin list \<Rightarrow> symbol list \<Rightarrow> error + (symbol \<times> complex) list list" where
  "solve system symbols =
     (case solve_rows system symbols of None \<Rightarrow> Inl Unsupported | Some sol \<Rightarrow> Inr [sol])"

definition nsimplify :: "complex \<Rightarrow> complex" where
  \<comment> \<open>\<^verbatim>\<open>sp.nsimplify\<close> on an exact number\<close>
  "nsimplify z = z"

definition applyfunc :: "('a \<Rightarrow> 'b) \<Rightarrow> 'a list list \<Rightarrow> 'b list list" where
  "applyfunc f M = map (map f) M"

subsection \<open>\<^verbatim>\<open>form_matrix_irrep_so3\<close>\<close>

text \<open>
  The first \<^verbatim>\<open>if\<close> of the loop body, the raising term:
  \<^verbatim>\<open>if k >= 0 and m + 1 <= j: m_plus1_state = prefactor_up * symbolic_eigenstates[k - 1]\<close>.
\<close>

definition m_plus1_state ::
  "real \<Rightarrow> complex list list \<Rightarrow> complex list \<Rightarrow> nat \<Rightarrow> complex \<Rightarrow> error + complex list" where
  "m_plus1_state j symbolic_eigenstates null_ket k m =
     (if 0 \<le> int k \<and> cle (m + 1) (complex_of_real j)
      then let prefactor_up = csqrt (complex_of_real (j * (j + 1)) - m * (m + 1))
           in ebind (py_index symbolic_eigenstates (int k - 1))
                (\<lambda>e. Inr (smult prefactor_up e))
      else Inr null_ket)"

text \<open>
  The second \<^verbatim>\<open>if\<close>, the lowering term:
  \<^verbatim>\<open>if k <= len(js) - 1 and m - 1 >= -j: m_minus1_state = prefactor_down * symbolic_eigenstates[k + 1]\<close>.
\<close>

definition m_minus1_state ::
  "real \<Rightarrow> complex list \<Rightarrow> complex list list \<Rightarrow> complex list \<Rightarrow> nat \<Rightarrow> complex
     \<Rightarrow> error + complex list" where
  "m_minus1_state j js symbolic_eigenstates null_ket k m =
     (if int k \<le> int (length js) - 1 \<and> cle (complex_of_real (- j)) (m - 1)
      then let prefactor_down = csqrt (complex_of_real (j * (j + 1)) - m * (m - 1))
           in ebind (py_index symbolic_eigenstates (int k + 1))
                (\<lambda>e. Inr (smult prefactor_down e))
      else Inr null_ket)"

text \<open>The right-hand side \<^verbatim>\<open>rhs\<close> of the column equation for \<open>k\<close>.\<close>

definition rhs ::
  "complex \<Rightarrow> real \<Rightarrow> complex list \<Rightarrow> complex list list \<Rightarrow> complex list \<Rightarrow> nat \<Rightarrow> complex
     \<Rightarrow> error + complex list" where
  "rhs prefactor j js symbolic_eigenstates null_ket k m =
     ebind (m_plus1_state j symbolic_eigenstates null_ket k m) (\<lambda>up.
     ebind (m_minus1_state j js symbolic_eigenstates null_ket k m) (\<lambda>down.
       Inr (if prefactor = 2 then vsub (vneg up) down else vadd (vneg up) down)))"

text \<open>The body of the loop over \<^verbatim>\<open>enumerate(js)\<close>: the solution \<^verbatim>\<open>sol\<close> of column \<open>k\<close>.\<close>

definition column_sol ::
  "nat \<Rightarrow> complex \<Rightarrow> real \<Rightarrow> complex list \<Rightarrow> int \<Rightarrow> symbol list \<Rightarrow> symbol list list list
     \<Rightarrow> complex list list \<Rightarrow> complex list \<Rightarrow> nat \<Rightarrow> complex
     \<Rightarrow> error + (symbol \<times> complex) list" where
  "column_sol i prefactor j js num_vars symbols_list generators symbolic_eigenstates null_ket k m =
     ebind (rhs prefactor j js symbolic_eigenstates null_ket k m) (\<lambda>b.
       let symbols = (if prefactor = 2 then take (nat (num_vars div 2)) symbols_list
                      else drop (nat (num_vars div 2)) symbols_list)
       in ebind (py_index generators (int i)) (\<lambda>G.
          ebind (py_index symbolic_eigenstates (int k)) (\<lambda>e.
          ebind (solve (equation prefactor G e b) symbols) (\<lambda>solutions.
            py_index solutions 0))))"

text \<open>The loop \<^verbatim>\<open>for k, m in enumerate(js): ...; sols.append(sol)\<close>, from index \<open>k\<close> on.\<close>

fun column_loop ::
  "nat \<Rightarrow> complex \<Rightarrow> real \<Rightarrow> complex list \<Rightarrow> int \<Rightarrow> symbol list \<Rightarrow> symbol list list list
     \<Rightarrow> complex list list \<Rightarrow> complex list \<Rightarrow> nat \<Rightarrow> complex list
     \<Rightarrow> error + (symbol \<times> complex) list list" where
  "column_loop i prefactor j js num_vars symbols_list generators es null_ket k [] = Inr []"
| "column_loop i prefactor j js num_vars symbols_list generators es null_ket k (m # ms) =
     ebind (column_sol i prefactor j js num_vars symbols_list generators es null_ket k m)
       (\<lambda>sol.
     ebind (column_loop i prefactor j js num_vars symbols_list generators es null_ket (Suc k) ms)
       (\<lambda>sols. Inr (sol # sols)))"

text \<open>
  One round of the loop \<^verbatim>\<open>for (i, prefactor) in enumerate([2.0, 2.0j])\<close>: the matrix stored
  into \<^verbatim>\<open>generators[i]\<close>. Round \<open>i\<close> reads \<^verbatim>\<open>generators[i]\<close> only, before it is overwritten,
  so every round sees the matrices of unknowns.
\<close>

definition generator ::
  "nat \<Rightarrow> complex \<Rightarrow> real \<Rightarrow> int \<Rightarrow> complex list \<Rightarrow> int \<Rightarrow> symbol list \<Rightarrow> symbol list list list
     \<Rightarrow> complex list list \<Rightarrow> complex list \<Rightarrow> error + complex list list" where
  "generator i prefactor j D js num_vars symbols_list generators es null_ket =
     ebind (column_loop i prefactor j js num_vars symbols_list generators es null_ket 0 js)
       (\<lambda>sols.
     ebind (reassemble_mat_from_sols D sols) (\<lambda>J. Inr (applyfunc nsimplify J)))"

definition symbols :: "int \<Rightarrow> symbol list" where
  \<comment> \<open>\<^verbatim>\<open>[*sp.symbols(f'x:{num_vars}')]\<close>\<close>
  "symbols num_vars = map Sym [0..<nat num_vars]"

definition form_matrix_irrep_so3 :: "real \<Rightarrow> error + complex list list list" where
  "form_matrix_irrep_so3 j =
     (let D = trunc (2 * j + 1);
          js = arange j (- j - 1) (- 1);
          J3 = diag js
      in ebind (eye D) (\<lambda>eigenstates.
         let num_vars = D ^ 2 * 2;
             h = [symbols num_vars];
             symbols_list = 0
         in ebind (initialize_generators D symbols_list h) (\<lambda>(generators, h1).
            let symbolic_eigenstates = initialize_eigenstates eigenstates
            in ebind (zeros D) (\<lambda>null_ket.
               ebind (generator 0 2 j D js num_vars (h1 ! symbols_list) generators
                        symbolic_eigenstates null_ket) (\<lambda>J1.
               ebind (generator 1 (2 * \<i>) j D js num_vars (h1 ! symbols_list) generators
                        symbolic_eigenstates null_ket) (\<lambda>J2.
                 Inr [J1, J2, J3]))))))"

subsection \<open>Matrix algebra for stating the properties\<close>

definition mat_mul :: "complex list list \<Rightarrow> complex list list \<Rightarrow> complex list list" where
  "mat_mul A B =
     map (\<lambda>row. map (\<lambda>c. (\<Sum>k\<leftarrow>[0..<length row]. row ! k * (B ! k) ! c)) [0..<shape1 B]) A"

definition mat_sub :: "complex list list \<Rightarrow> complex list list \<Rightarrow> complex list list" where
  "mat_sub A B = map2 (map2 (-)) A B"

definition mat_scale :: "complex \<Rightarrow> complex list list \<Rightarrow> complex list list" where
  "mat_scale c A = map (map (\<lambda>x. c * x)) A"

definition commutator :: "complex list list \<Rightarrow> complex list list \<Rightarrow> complex list list" where
  "commutator A B = mat_sub (mat_mul A B) (mat_mul B A)"

definition dagger :: "complex list list \<Rightarrow> complex list list" where
  \<comment> \<open>the conjugate transpose\<close>
  "dagger A = map (\<lambda>c. map (\<lambda>row. cnj (row ! c)) A) [0..<shape1 A]"

definition is_square :: "nat \<Rightarrow> 'a list list \<Rightarrow> bool" where
  "is_square D A = (length A = D \<and> list_all (\<lambda>row. length row = D) A)"

definition hermitian :: "complex list list \<Rightarrow> bool" where
  "hermitian A = (dagger A = A)"

definition unit_vector :: "nat \<Rightarrow> nat \<Rightarrow> complex list" where
  \<comment> \<open>the basis vector \<open>e\<^sub>k\<close> of length \<open>D\<close>\<close>
  "unit_vector D k = map (\<lambda>i. if i = k then 1 else 0) [0..<D]"

definition returns :: "error + 'a \<Rightarrow> ('a \<Rightarrow> bool) \<Rightarrow> bool" where
  \<comment> \<open>the call returns a result, and the result satisfies \<open>P\<close>\<close>
  "returns r P = (case r of Inl e \<Rightarrow> False | Inr x \<Rightarrow> P x)"

definition commutation_relations :: "complex list list list \<Rightarrow> bool" where
  \<comment> \<open>\<open>[J1, J2] = i J3\<close> and its cyclic permutations, for the returned list \<open>[J1, J2, J3]\<close>\<close>
  "commutation_relations Js =
     (case Js of
        [J1, J2, J3] \<Rightarrow>
          commutator J1 J2 = mat_scale \<i> J3 \<and> commutator J2 J3 = mat_scale \<i> J1 \<and>
          commutator J3 J1 = mat_scale \<i> J2
      | _ \<Rightarrow> False)"

definition diag_descending :: "real \<Rightarrow> complex list list" where
  \<comment> \<open>the matrix \<open>diag(j, j - 1, \<dots>, - j)\<close> of dimension \<open>2j + 1\<close>\<close>
  "diag_descending j =
     (let D = nat \<lfloor>2 * j + 1\<rfloor>
      in map (\<lambda>r. map (\<lambda>c. if r = c then complex_of_real (j - real r) else 0) [0..<D]) [0..<D])"

section \<open>Properties\<close>

subsection \<open>The unknown-matrix constructor\<close>

text \<open>
  The three loops pop \<open>n\<close>, \<open>n \<cdot> D\<close> and \<open>n \<cdot> D \<cdot> D\<close> elements from the front of the list
  at address \<open>a\<close>, and fail with \<open>IndexError\<close> when the list is shorter.
\<close>

lemma pop_cols_eq:
  "a < length h \<Longrightarrow>
   pop_cols n a h =
     (if n \<le> length (h ! a) then Inr (take n (h ! a), h[a := drop n (h ! a)])
      else Inl IndexError)"
proof (induction n arbitrary: h)
  case 0
  then show ?case by simp
next
  case (Suc n)
  show ?case
  proof (cases "h ! a")
    case Nil
    then show ?thesis by (simp add: pop0_def ebind_def)
  next
    case (Cons x xs)
    have "a < length (h[a := xs])" using Suc.prems by simp
    from Suc.IH[OF this] Suc.prems Cons show ?thesis
      by (simp add: pop0_def ebind_def)
  qed
qed

lemma pop_rows_eq:
  "a < length h \<Longrightarrow>
   pop_rows n D a h =
     (if n * D \<le> length (h ! a)
      then Inr (map (\<lambda>i. take D (drop (i * D) (h ! a))) [0..<n], h[a := drop (n * D) (h ! a)])
      else Inl IndexError)"
proof (induction n arbitrary: h)
  case 0
  then show ?case by simp
next
  case (Suc n)
  show ?case
  proof (cases "D \<le> length (h ! a)")
    case False
    then have "\<not> Suc n * D \<le> length (h ! a)" by (simp add: trans_le_add1)
    with False Suc.prems show ?thesis by (simp add: pop_cols_eq ebind_def)
  next
    case True
    let ?h1 = "h[a := drop D (h ! a)]"
    have a1: "a < length ?h1" using Suc.prems by simp
    have h1a: "?h1 ! a = drop D (h ! a)" using Suc.prems by simp
    have cols: "pop_cols D a h = Inr (take D (h ! a), ?h1)"
      using True Suc.prems by (simp add: pop_cols_eq)
    have le: "(n * D \<le> length (h ! a) - D) = (Suc n * D \<le> length (h ! a))"
      using True by auto
    show ?thesis
      unfolding pop_rows.simps cols
      by (simp add: ebind_def Suc.IH[OF a1] h1a le map_upt_Suc add.commute del: upt_Suc)
  qed
qed

lemma pop_generators_eq:
  "a < length h \<Longrightarrow>
   pop_generators n D a h =
     (if n * (D * D) \<le> length (h ! a)
      then Inr (map (\<lambda>g. map (\<lambda>i. take D (drop (i * D) (drop (g * (D * D)) (h ! a)))) [0..<D])
                  [0..<n],
                h[a := drop (n * (D * D)) (h ! a)])
      else Inl IndexError)"
proof (induction n arbitrary: h)
  case 0
  then show ?case by simp
next
  case (Suc n)
  show ?case
  proof (cases "D * D \<le> length (h ! a)")
    case False
    then have "\<not> Suc n * (D * D) \<le> length (h ! a)" by (simp add: trans_le_add1)
    with False Suc.prems show ?thesis by (simp add: pop_rows_eq ebind_def)
  next
    case True
    let ?h1 = "h[a := drop (D * D) (h ! a)]"
    have a1: "a < length ?h1" using Suc.prems by simp
    have h1a: "?h1 ! a = drop (D * D) (h ! a)" using Suc.prems by simp
    have rows: "pop_rows D D a h = Inr (map (\<lambda>i. take D (drop (i * D) (h ! a))) [0..<D], ?h1)"
      using True Suc.prems by (simp add: pop_rows_eq)
    have le: "(n * (D * D) \<le> length (h ! a) - D * D) = (Suc n * (D * D) \<le> length (h ! a))"
      using True by auto
    show ?thesis
      unfolding pop_generators.simps rows
      by (simp add: ebind_def Suc.IH[OF a1] h1a le map_upt_Suc add.commute del: upt_Suc)
  qed
qed

text \<open>
  The call as a whole: the copy is appended to the store (at address \<open>length h\<close>) and it is
  the copy that loses its first \<open>2 D\<^sup>2\<close> elements.
\<close>

lemma initialize_generators_eq:
  assumes "a < length h"
  shows "initialize_generators D a h =
     (if 2 * (nat D * nat D) \<le> length (h ! a)
      then Inr (map (\<lambda>g. map (\<lambda>i. take (nat D) (drop (i * nat D) (drop (g * (nat D * nat D)) (h ! a))))
                         [0..<nat D]) [0..<2],
                h @ [drop (2 * (nat D * nat D)) (h ! a)])
      else Inl IndexError)"
proof -
  have "length h < length (h @ [h ! a])" by simp
  from pop_generators_eq[OF this, of 2 "nat D"] assms show ?thesis
    by (simp add: initialize_generators_def copy_def nth_append)
qed

lemma concat_chunks: "concat (map (\<lambda>i. take D (drop (i * D) xs)) [0..<n]) = take (n * D) xs"
proof (induction n)
  case 0
  then show ?case by simp
next
  case (Suc n)
  have "take (n * D) xs @ take D (drop (n * D) xs) = take (n * D + D) xs"
    by (simp add: take_add)
  with Suc show ?case by (simp add: add.commute)
qed

lemma length_chunk: "i < n \<Longrightarrow> n * D \<le> length xs \<Longrightarrow> length (take D (drop (i * D) xs)) = D"
proof -
  assume a: "i < n" "n * D \<le> length xs"
  have "Suc i * D \<le> n * D" using a(1) by (simp only: mult_le_mono1 Suc_leI)
  then have "i * D + D \<le> length xs" using a(2) by simp
  then show ?thesis by simp
qed

lemma is_square_chunks:
  assumes "D * D \<le> length ys"
  shows "is_square D (map (\<lambda>i. take D (drop (i * D) ys)) [0..<D])"
proof -
  have "length (take D (drop (i * D) ys)) = D" if "i < D" for i
    using that assms by (rule length_chunk)
  then show ?thesis
    by (simp add: is_square_def list_all_iff del: length_take length_drop)
qed

text \<open>
  Claim C5, as the code has it. \<^verbatim>\<open>initialize_generators\<close> pops from a copy of its own: for a
  dimension \<open>D \<ge> 0\<close> and a caller's list with at least \<open>2 D\<^sup>2\<close> symbols the call returns two
  \<open>D \<times> D\<close> matrices whose entries, read row by row, are the first \<open>2 D\<^sup>2\<close> symbols of the
  list, each used once and in order; the caller's list and every other list of the store
  are unchanged after the call (only the copy is new).
\<close>

theorem initialize_generators_frame:
  assumes "a < length h" and "0 \<le> D" and "2 * D\<^sup>2 \<le> int (length (h ! a))"
  shows "\<exists>G0 G1 h'. initialize_generators D a h = Inr ([G0, G1], h')
           \<and> h' ! a = h ! a \<and> take (length h) h' = h
           \<and> is_square (nat D) G0 \<and> is_square (nat D) G1
           \<and> concat G0 @ concat G1 = take (nat (2 * D\<^sup>2)) (h ! a)"
proof -
  let ?n = "nat D" and ?xs = "h ! a"
  have sqD: "2 * D\<^sup>2 = int (2 * (?n * ?n))"
    using assms(2) by (simp add: power2_eq_square)
  have len: "2 * (?n * ?n) \<le> length ?xs"
    using assms(3) unfolding sqD by (simp only: of_nat_le_iff)
  have nn: "nat (2 * D\<^sup>2) = 2 * (?n * ?n)"
    unfolding sqD by (simp only: nat_int)
  let ?G = "\<lambda>g. map (\<lambda>i. take ?n (drop (i * ?n) (drop (g * (?n * ?n)) ?xs))) [0..<?n]"
  have eq: "initialize_generators D a h = Inr ([?G 0, ?G 1], h @ [drop (2 * (?n * ?n)) ?xs])"
    using len by (simp add: initialize_generators_eq[OF assms(1)] numeral_2_eq_2)
  have sq: "is_square ?n (?G g)" if "g < 2" for g
  proof -
    from that have "g = 0 \<or> g = 1" by auto
    then have "?n * ?n \<le> length (drop (g * (?n * ?n)) ?xs)" using len by auto
    then show ?thesis by (rule is_square_chunks)
  qed
  have cc: "concat (?G 0) @ concat (?G 1) = take (2 * (?n * ?n)) ?xs"
  proof -
    have "concat (?G 0) = take (?n * ?n) ?xs" by (simp add: concat_chunks)
    moreover have "concat (?G 1) = take (?n * ?n) (drop (?n * ?n) ?xs)"
      using concat_chunks[of ?n "drop (?n * ?n) ?xs" ?n] by (simp del: drop_drop)
    ultimately show ?thesis by (simp add: take_add mult_2)
  qed
  show ?thesis
    using sq[of 0] sq[of 1] cc assms(1) by (simp add: eq nn nth_append)
qed

theorem initialize_generators_frame_witness:
  "\<exists>G0 G1 h'. initialize_generators 1 0 [[Sym 0, Sym 1, Sym 2]] = Inr ([G0, G1], h')
      \<and> h' ! 0 = [Sym 0, Sym 1, Sym 2] \<and> take 1 h' = [[Sym 0, Sym 1, Sym 2]]
      \<and> is_square 1 G0 \<and> is_square 1 G1 \<and> concat G0 @ concat G1 = [Sym 0, Sym 1]"
  using initialize_generators_frame[of 0 "[[Sym 0, Sym 1, Sym 2]]" 1] by simp

text \<open>
  The claim as the specification states it fails: after a call with \<open>D = 1\<close> on the list
  \<open>[x0, x1]\<close> the caller's list, at address 0, still holds both symbols; the list without
  them is the copy at address 1.
\<close>

theorem initialize_generators_keeps_callers_list:
  "initialize_generators 1 0 [[Sym 0, Sym 1]] = Inr ([[[Sym 0]], [[Sym 1]]], [[Sym 0, Sym 1], []])"
  by (simp add: initialize_generators_eq numeral_2_eq_2)

text \<open>
  Claim C8. A call with a dimension \<open>D \<ge> 0\<close> and a list of fewer than \<open>2 D\<^sup>2\<close> symbols fails
  with \<open>IndexError\<close> (\<^verbatim>\<open>pop\<close> from the emptied copy) and returns nothing.
\<close>

theorem initialize_generators_too_few:
  assumes "a < length h" and "0 \<le> D" and "int (length (h ! a)) < 2 * D\<^sup>2"
  shows "initialize_generators D a h = Inl IndexError"
proof -
  have "2 * D\<^sup>2 = int (2 * (nat D * nat D))"
    using assms(2) by (simp add: power2_eq_square)
  with assms(3) have "\<not> 2 * (nat D * nat D) \<le> length (h ! a)"
    by (simp only: of_nat_less_iff not_le)
  then show ?thesis by (simp add: initialize_generators_eq[OF assms(1)])
qed

theorem initialize_generators_too_few_witness:
  "initialize_generators 2 0 [[Sym 0, Sym 1, Sym 2, Sym 3, Sym 4, Sym 5, Sym 6]] = Inl IndexError"
  using initialize_generators_too_few[of 0 "[[Sym 0, Sym 1, Sym 2, Sym 3, Sym 4, Sym 5, Sym 6]]" 2]
  by simp

subsection \<open>The matrix reassembler\<close>

lemma foldl_update_keys:
  "distinct (map fst d) \<Longrightarrow>
   distinct (map fst (foldl (\<lambda>d (key, val). AList.update key val d) d xs)) \<and>
   fst ` set (foldl (\<lambda>d (key, val). AList.update key val d) d xs) = fst ` set d \<union> fst ` set xs"
proof (induction xs arbitrary: d)
  case Nil
  then show ?case by simp
next
  case (Cons x xs)
  obtain k v where x: "x = (k, v)" by (cases x)
  have "distinct (map fst (AList.update k v d))"
    using Cons.prems by (rule AList.distinct_update)
  from Cons.IH[OF this] show ?case
    by (simp add: x AList.dom_update)
qed

text \<open>The merged dict has one entry for each symbol that occurs in some solution.\<close>

lemma length_merged_dict: "length (merged_dict sols) = card (fst ` set (concat sols))"
proof -
  have d: "distinct (map fst (merged_dict sols))"
    and s: "fst ` set (merged_dict sols) = fst ` set (concat sols)"
    using foldl_update_keys[of "[]" "concat sols"] by (simp_all add: merged_dict_def)
  have "card (fst ` set (merged_dict sols)) = length (map fst (merged_dict sols))"
    using distinct_card[OF d] by simp
  then show ?thesis by (simp add: s)
qed

lemma Matrix_square:
  assumes "0 \<le> D" and "int (length flat) = D * D"
  shows "\<exists>M. Matrix D D flat = Inr M \<and> is_square (nat D) M"
proof -
  have "int (length flat) = int (nat D * nat D)" using assms by simp
  then have "nat D * nat D \<le> length flat" by (simp only: of_nat_eq_iff)
  then have "is_square (nat D) (map (\<lambda>i. take (nat D) (drop (i * nat D) flat)) [0..<nat D])"
    by (rule is_square_chunks)
  then show ?thesis using assms by (simp add: Matrix_def)
qed

text \<open>
  Claim C9, as the code has it. The only check is the one \<^verbatim>\<open>sp.Matrix(D, D, values)\<close> makes
  on the number of values: for \<open>D \<ge> 0\<close> the call returns a \<open>D \<times> D\<close> matrix when the solutions
  mention exactly \<open>D\<^sup>2\<close> distinct symbols, and fails with \<open>ValueError\<close> otherwise. Neither a
  gap in the indices nor a symbol solved twice is looked for.
\<close>

theorem reassemble_checks_count_only:
  assumes "0 \<le> D"
  shows "if int (card (fst ` set (concat sols))) = D * D
         then \<exists>M. reassemble_mat_from_sols D sols = Inr M \<and> is_square (nat D) M
         else reassemble_mat_from_sols D sols = Inl ValueError"
proof (cases "int (card (fst ` set (concat sols))) = D * D")
  case True
  let ?vals = "map snd (sort_key (\<lambda>item. symbol_index (fst item)) (merged_dict sols))"
  have "int (length ?vals) = D * D" using True by (simp add: length_merged_dict)
  from Matrix_square[OF assms this] True show ?thesis
    by (simp add: reassemble_mat_from_sols_def)
next
  case False
  then show ?thesis
    by (simp add: reassemble_mat_from_sols_def Matrix_def length_merged_dict)
qed

theorem reassemble_checks_count_only_witness:
  "(\<exists>M. reassemble_mat_from_sols 1 [[(Sym 0, 7 :: complex)]] = Inr M \<and> is_square 1 M) \<and>
   reassemble_mat_from_sols 2 [[(Sym 0, 1 :: complex)], [(Sym 1, 2)]] = Inl ValueError"
  using reassemble_checks_count_only[of 1 "[[(Sym 0, 7 :: complex)]]"]
    reassemble_checks_count_only[of 2 "[[(Sym 0, 1 :: complex)], [(Sym 1, 2)]]"]
  by simp

text \<open>
  The claim as the specification states it fails. With \<open>D = 1\<close>, the one solution \<open>x5 = 1\<close>
  has a gap (the indices are not \<open>0 .. 0\<close>) and still gives the matrix \<open>[[1]]\<close>; the two
  solutions \<open>x0 = 1\<close> and \<open>x0 = 2\<close> solve a symbol twice and still give \<open>[[2]]\<close>, the later
  value.
\<close>

theorem reassemble_accepts_gap_and_duplicate:
  "reassemble_mat_from_sols 1 [[(Sym 5, 1 :: complex)]] = Inr [[1]] \<and>
   reassemble_mat_from_sols 1 [[(Sym 0, 1 :: complex)], [(Sym 0, 2)]] = Inr [[2]]"
  by (simp add: reassemble_mat_from_sols_def merged_dict_def Matrix_def)

subsection \<open>The column equation\<close>

text \<open>The environment that \<^verbatim>\<open>form_matrix_irrep_so3\<close> builds for a spin \<open>j = n / 2\<close>.\<close>

lemma trunc_half: "trunc (2 * (real n / 2) + 1) = int n + 1"
proof -
  have "\<lfloor>real n + 1\<rfloor> = int n + 1" by linarith
  then show ?thesis by (simp add: trunc_def)
qed

lemma arange_half:
  "arange (real n / 2) (- (real n / 2) - 1) (- 1) =
     map (\<lambda>i. complex_of_real (real n / 2 - real i)) [0..<Suc n]"
proof -
  have "(- (real n / 2) - 1 - real n / 2) / (- 1) = real (Suc n)" by (simp add: field_simps)
  then have "nat \<lceil>(- (real n / 2) - 1 - real n / 2) / (- 1)\<rceil> = Suc n"
    by (simp only: ceiling_of_nat nat_int)
  then show ?thesis unfolding arange_def by simp
qed

lemma eye_eigenstates:
  assumes "eye (int n + 1) = Inr eigenstates"
  shows "initialize_eigenstates eigenstates = map (unit_vector (Suc n)) [0..<Suc n]"
proof -
  have n1: "nat (int n + 1) = Suc n" by simp
  have e: "eigenstates = map (\<lambda>i. map (\<lambda>k. if i = k then 1 else 0) [0..<Suc n]) [0..<Suc n]"
    using assms unfolding eye_def n1 by (simp del: upt_Suc)
  have s: "shape1 eigenstates = Suc n"
    unfolding e by (simp add: shape1_def upt_conv_Cons del: upt_Suc)
  show ?thesis
    unfolding initialize_eigenstates_def s
    by (rule map_cong[OF refl]) (simp add: e unit_vector_def eq_commute del: upt_Suc)
qed

lemma smult_unit_nonzero:
  assumes "c \<noteq> 0" and "i < D"
  shows "smult c (unit_vector D i) \<noteq> replicate D 0"
proof
  assume "smult c (unit_vector D i) = replicate D 0"
  then have "smult c (unit_vector D i) ! i = replicate D 0 ! i" by simp
  with assms show False by (simp add: smult_def unit_vector_def)
qed

text \<open>
  The ladder coefficients at \<open>m\<^sub>k = j - k\<close>:
  \<open>j (j + 1) - m (m + 1) = k (n - k + 1)\<close> and \<open>j (j + 1) - m (m - 1) = (k + 1) (n - k)\<close>.
\<close>

lemma up_coefficient:
  fixes n k :: nat
  assumes "k \<le> n"
  shows "csqrt (complex_of_real (real n / 2 * (real n / 2 + 1))
               - complex_of_real (real n / 2 - real k) * (complex_of_real (real n / 2 - real k) + 1))
         = complex_of_real (sqrt (real k * (real n - real k + 1)))"
proof -
  have "real n / 2 * (real n / 2 + 1) - (real n / 2 - real k) * (real n / 2 - real k + 1)
          = real k * (real n - real k + 1)"
    by (simp add: field_simps)
  then have "complex_of_real (real k * (real n - real k + 1))
        = complex_of_real (real n / 2 * (real n / 2 + 1) - (real n / 2 - real k) * (real n / 2 - real k + 1))"
    by (rule arg_cong[OF sym])
  also have "\<dots> = complex_of_real (real n / 2 * (real n / 2 + 1))
          - complex_of_real (real n / 2 - real k) * (complex_of_real (real n / 2 - real k) + 1)"
    by (simp only: of_real_diff of_real_mult of_real_add of_real_1)
  finally have "complex_of_real (real n / 2 * (real n / 2 + 1))
          - complex_of_real (real n / 2 - real k) * (complex_of_real (real n / 2 - real k) + 1)
        = complex_of_real (real k * (real n - real k + 1))"
    by (rule sym)
  moreover have "0 \<le> real k * (real n - real k + 1)" using assms by simp
  ultimately show ?thesis by (simp only: of_real_sqrt)
qed

lemma down_coefficient:
  fixes n k :: nat
  assumes "k \<le> n"
  shows "csqrt (complex_of_real (real n / 2 * (real n / 2 + 1))
               - complex_of_real (real n / 2 - real k) * (complex_of_real (real n / 2 - real k) - 1))
         = complex_of_real (sqrt ((real k + 1) * (real n - real k)))"
proof -
  have "real n / 2 * (real n / 2 + 1) - (real n / 2 - real k) * (real n / 2 - real k - 1)
          = (real k + 1) * (real n - real k)"
    by (simp add: field_simps)
  then have "complex_of_real ((real k + 1) * (real n - real k))
        = complex_of_real (real n / 2 * (real n / 2 + 1) - (real n / 2 - real k) * (real n / 2 - real k - 1))"
    by (rule arg_cong[OF sym])
  also have "\<dots> = complex_of_real (real n / 2 * (real n / 2 + 1))
          - complex_of_real (real n / 2 - real k) * (complex_of_real (real n / 2 - real k) - 1)"
    by (simp only: of_real_diff of_real_mult of_real_add of_real_1)
  finally have "complex_of_real (real n / 2 * (real n / 2 + 1))
          - complex_of_real (real n / 2 - real k) * (complex_of_real (real n / 2 - real k) - 1)
        = complex_of_real ((real k + 1) * (real n - real k))"
    by (rule sym)
  moreover have "0 \<le> (real k + 1) * (real n - real k)" using assms by simp
  ultimately show ?thesis by (simp only: of_real_sqrt)
qed

text \<open>
  Claim C6. Let \<open>j = n / 2\<close> be a spin, \<open>D = 2j + 1\<close>, and \<open>k < D\<close> a basis index with
  \<open>m = m\<^sub>k\<close>, in the environment the function builds (\<open>js\<close>, the eigenstates, the null ket).
  The raising term of the column equation is \<open>c\<^sub>+(m) \<cdot> e\<^sub>k\<^sub>-\<^sub>1\<close> and the lowering term is
  \<open>c\<^sub>-(m) \<cdot> e\<^sub>k\<^sub>+\<^sub>1\<close>; the raising term is the zero vector exactly when \<open>k - 1 < 0\<close>, which is
  when \<open>m = j\<close>, and the lowering term is the zero vector exactly when \<open>k + 1 \<ge> D\<close>, which is
  when \<open>m = - j\<close>; a term that is present has a non-zero coefficient. The right-hand side
  is \<open>- up - down\<close> for the prefactor 2 and \<open>- up + down\<close> for the prefactor \<open>2i\<close>.
\<close>

theorem ladder_terms_dropped_at_ends:
  fixes n k :: nat
  assumes j: "j = real n / 2" and k: "k \<le> n"
    and D: "D = trunc (2 * j + 1)"
    and js: "js = arange j (- j - 1) (- 1)"
    and eye: "eye D = Inr eigenstates"
    and es: "es = initialize_eigenstates eigenstates"
    and null_ket: "zeros D = Inr null_ket"
    and m: "py_index js (int k) = Inr m"
    and c_up: "c_up = csqrt (complex_of_real (j * (j + 1)) - m * (m + 1))"
    and c_down: "c_down = csqrt (complex_of_real (j * (j + 1)) - m * (m - 1))"
    and up: "up = (if int k - 1 < 0 then null_ket else smult c_up (unit_vector (nat D) (k - 1)))"
    and down: "down = (if D \<le> int k + 1 then null_ket else smult c_down (unit_vector (nat D) (k + 1)))"
  shows "m_plus1_state j es null_ket k m = Inr up
       \<and> m_minus1_state j js es null_ket k m = Inr down
       \<and> (up = null_ket \<longleftrightarrow> int k - 1 < 0) \<and> (int k - 1 < 0 \<longleftrightarrow> m = complex_of_real j)
       \<and> (down = null_ket \<longleftrightarrow> D \<le> int k + 1) \<and> (D \<le> int k + 1 \<longleftrightarrow> m = complex_of_real (- j))
       \<and> (0 \<le> int k - 1 \<longrightarrow> c_up \<noteq> 0) \<and> (int k + 1 < D \<longrightarrow> c_down \<noteq> 0)
       \<and> rhs 2 j js es null_ket k m = Inr (vsub (vneg up) down)
       \<and> rhs (2 * \<i>) j js es null_ket k m = Inr (vadd (vneg up) down)"
proof -
  have Dn: "D = int n + 1" unfolding D j by (rule trunc_half)
  have natD: "nat D = Suc n" unfolding Dn by simp
  have js': "js = map (\<lambda>i. complex_of_real (real n / 2 - real i)) [0..<Suc n]"
    unfolding js j by (rule arange_half)
  have len_js: "length js = Suc n" unfolding js' by simp
  have m': "m = complex_of_real (real n / 2 - real k)"
    using m k unfolding js' py_index_def by (simp add: Let_def del: upt_Suc)
  have es': "es = map (unit_vector (Suc n)) [0..<Suc n]"
    unfolding es using eye[unfolded Dn] by (rule eye_eigenstates)
  have nk: "null_ket = replicate (Suc n) 0"
    using null_ket unfolding zeros_def natD by (simp add: Dn)
  have cu: "c_up = complex_of_real (sqrt (real k * (real n - real k + 1)))"
    unfolding c_up m' j using k by (rule up_coefficient)
  have cd: "c_down = complex_of_real (sqrt ((real k + 1) * (real n - real k)))"
    unfolding c_down m' j using k by (rule down_coefficient)
  have cu0: "c_up \<noteq> 0" if "0 < k"
  proof -
    have "0 < real k * (real n - real k + 1)" using that k by simp
    then have "0 < sqrt (real k * (real n - real k + 1))" by (rule real_sqrt_gt_zero)
    then have "sqrt (real k * (real n - real k + 1)) \<noteq> 0" by (rule less_imp_neq[THEN not_sym])
    then show ?thesis unfolding cu by (simp only: of_real_eq_0_iff not_False_eq_True)
  qed
  have cd0: "c_down \<noteq> 0" if "k < n"
  proof -
    have "0 < (real k + 1) * (real n - real k)" using that by simp
    then have "0 < sqrt ((real k + 1) * (real n - real k))" by (rule real_sqrt_gt_zero)
    then have "sqrt ((real k + 1) * (real n - real k)) \<noteq> 0" by (rule less_imp_neq[THEN not_sym])
    then show ?thesis unfolding cd by (simp only: of_real_eq_0_iff not_False_eq_True)
  qed
  have cond_up: "cle (m + 1) (complex_of_real j) \<longleftrightarrow> 0 < k"
    unfolding m' j cle_def by auto
  have cond_down: "cle (complex_of_real (- j)) (m - 1) \<longleftrightarrow> k < n"
    unfolding m' j cle_def by auto
  have idx_up: "py_index es (int k - 1) = Inr (unit_vector (Suc n) (k - 1))" if "0 < k"
    using that k unfolding es' py_index_def
    by (simp add: Let_def nat_diff_distrib' nth_map_upt del: upt_Suc)
  have idx_down: "py_index es (int k + 1) = Inr (unit_vector (Suc n) (k + 1))" if "k < n"
    using that unfolding es' py_index_def
    by (simp add: Let_def nat_add_distrib nth_map_upt del: upt_Suc)
  have 1: "m_plus1_state j es null_ket k m = Inr up"
    unfolding m_plus1_state_def cond_up c_up[symmetric] up natD using idx_up
    by (simp add: ebind_def Let_def)
  have 2: "m_minus1_state j js es null_ket k m = Inr down"
    unfolding m_minus1_state_def cond_down c_down[symmetric] down natD len_js Dn
    using idx_down k by (simp add: ebind_def Let_def natD[unfolded Dn])
  have 3: "up = null_ket \<longleftrightarrow> int k - 1 < 0"
  proof (cases "0 < k")
    case True
    then have "k - 1 < Suc n" using k by simp
    from smult_unit_nonzero[OF cu0[OF True] this] True show ?thesis
      unfolding up nk natD by simp
  next
    case False
    then show ?thesis unfolding up by simp
  qed
  have 4: "int k - 1 < 0 \<longleftrightarrow> m = complex_of_real j"
    unfolding m' j by auto
  have 5: "down = null_ket \<longleftrightarrow> D \<le> int k + 1"
  proof (cases "k < n")
    case True
    then have "k + 1 < Suc n" by simp
    from smult_unit_nonzero[OF cd0[OF True] this] True show ?thesis
      unfolding down nk natD by (simp add: Dn)
  next
    case False
    then show ?thesis unfolding down Dn by simp
  qed
  have 6: "D \<le> int k + 1 \<longleftrightarrow> m = complex_of_real (- j)"
    unfolding m' j Dn using k by (auto simp add: field_simps)
  have 7: "0 \<le> int k - 1 \<longrightarrow> c_up \<noteq> 0" using cu0 by auto
  have 8: "int k + 1 < D \<longrightarrow> c_down \<noteq> 0" using cd0 unfolding Dn by auto
  have 9: "rhs 2 j js es null_ket k m = Inr (vsub (vneg up) down)"
    unfolding rhs_def 1 2 by (simp add: ebind_def)
  have 10: "rhs (2 * \<i>) j js es null_ket k m = Inr (vadd (vneg up) down)"
  proof -
    have "2 * \<i> \<noteq> 2" by (simp add: complex_eq_iff)
    then show ?thesis unfolding rhs_def 1 2 by (simp add: ebind_def)
  qed
  from 1 2 3 4 5 6 7 8 9 10 show ?thesis by blast
qed

text \<open>The theorem at \<open>j = 1\<close> and the middle column \<open>k = 1\<close>, where both terms are present.\<close>

theorem ladder_terms_dropped_at_ends_witness:
  "m_plus1_state 1 [[1, 0, 0], [0, 1, 0], [0, 0, 1]] [0, 0, 0] 1 0
     = Inr [complex_of_real (sqrt 2), 0, 0]
   \<and> m_minus1_state 1 [1, 0, - 1] [[1, 0, 0], [0, 1, 0], [0, 0, 1]] [0, 0, 0] 1 0
     = Inr [0, 0, complex_of_real (sqrt 2)]
   \<and> [complex_of_real (sqrt 2), 0, 0] \<noteq> [0, 0, 0]
   \<and> complex_of_real (sqrt 2) \<noteq> 0
   \<and> rhs 2 1 [1, 0, - 1] [[1, 0, 0], [0, 1, 0], [0, 0, 1]] [0, 0, 0] 1 0
     = Inr [- complex_of_real (sqrt 2), 0, - complex_of_real (sqrt 2)]
   \<and> rhs (2 * \<i>) 1 [1, 0, - 1] [[1, 0, 0], [0, 1, 0], [0, 0, 1]] [0, 0, 0] 1 0
     = Inr [- complex_of_real (sqrt 2), 0, complex_of_real (sqrt 2)]"
proof -
  have e: "eye 3 = Inr [[1, 0, 0], [0, 1, 0], [0, 0, 1]]"
    by (simp add: eye_def upt_conv_Cons eval_nat_numeral)
  have inst: "m_plus1_state 1 [[1, 0, 0], [0, 1, 0], [0, 0, 1]] [0, 0, 0] 1 0 = Inr up
       \<and> m_minus1_state 1 [1, 0, - 1] [[1, 0, 0], [0, 1, 0], [0, 0, 1]] [0, 0, 0] 1 0 = Inr down
       \<and> (up = [0, 0, 0] \<longleftrightarrow> int 1 - 1 < 0) \<and> (int 1 - 1 < 0 \<longleftrightarrow> (0::complex) = complex_of_real 1)
       \<and> (down = [0, 0, 0] \<longleftrightarrow> 3 \<le> int 1 + 1) \<and> (3 \<le> int 1 + 1 \<longleftrightarrow> (0::complex) = complex_of_real (- 1))
       \<and> (0 \<le> int 1 - 1 \<longrightarrow> c_up \<noteq> 0) \<and> (int 1 + 1 < 3 \<longrightarrow> c_down \<noteq> 0)
       \<and> rhs 2 1 [1, 0, - 1] [[1, 0, 0], [0, 1, 0], [0, 0, 1]] [0, 0, 0] 1 0 = Inr (vsub (vneg up) down)
       \<and> rhs (2 * \<i>) 1 [1, 0, - 1] [[1, 0, 0], [0, 1, 0], [0, 0, 1]] [0, 0, 0] 1 0 = Inr (vadd (vneg up) down)"
    if "c_up = complex_of_real (sqrt 2)" "c_down = complex_of_real (sqrt 2)"
       "up = [complex_of_real (sqrt 2), 0, 0]" "down = [0, 0, complex_of_real (sqrt 2)]"
    for c_up c_down up down
    by (rule ladder_terms_dropped_at_ends[where n = 2 and k = 1 and j = 1 and D = 3
          and js = "[1, 0, - 1]" and eigenstates = "[[1, 0, 0], [0, 1, 0], [0, 0, 1]]"])
       (simp_all add: that trunc_def arange_def e initialize_eigenstates_def shape1_def
          zeros_def py_index_def smult_def unit_vector_def upt_conv_Cons eval_nat_numeral)
  from inst[OF refl refl refl refl] show ?thesis
    by (simp add: vsub_def vneg_def vadd_def)
qed

subsection \<open>The generators of the tested spins\<close>

lemmas eval_defs =
  form_matrix_irrep_so3_def generator_def column_sol_def rhs_def m_plus1_state_def
  m_minus1_state_def solve_def equation_def reassemble_mat_from_sols_def merged_dict_def
  Matrix_def applyfunc_def nsimplify_def initialize_eigenstates_def shape1_def eye_def
  zeros_def diag_def arange_def trunc_def symbols_def initialize_generators_eq ebind_def
  py_index_def cle_def smult_def vneg_def vadd_def vsub_def upt_conv_Cons eval_nat_numeral
  Let_def

lemmas algebra_defs =
  returns_def commutation_relations_def commutator_def mat_mul_def mat_sub_def mat_scale_def
  hermitian_def dagger_def is_square_def diag_descending_def shape1_def upt_conv_Cons
  eval_nat_numeral Let_def

lemma of_real_sqrt_square:
  "0 \<le> x \<Longrightarrow> complex_of_real (sqrt x) * complex_of_real (sqrt x) = complex_of_real x"
  by (simp flip: of_real_mult)

lemma form_0: "form_matrix_irrep_so3 0 = Inr [[[0]], [[0]], [[0]]]"
  by (simp add: eval_defs)

lemma form_half:
  "form_matrix_irrep_so3 (1 / 2) =
     Inr [[[0, 1 / 2], [1 / 2, 0]], [[0, - (\<i> / 2)], [\<i> / 2, 0]], [[1 / 2, 0], [0, - (1 / 2)]]]"
  by (simp add: eval_defs)

lemma form_1:
  "form_matrix_irrep_so3 1 =
     Inr [[[0, complex_of_real (sqrt 2) / 2, 0],
           [complex_of_real (sqrt 2) / 2, 0, complex_of_real (sqrt 2) / 2],
           [0, complex_of_real (sqrt 2) / 2, 0]],
          [[0, - (\<i> * complex_of_real (sqrt 2) / 2), 0],
           [\<i> * complex_of_real (sqrt 2) / 2, 0, - (\<i> * complex_of_real (sqrt 2) / 2)],
           [0, \<i> * complex_of_real (sqrt 2) / 2, 0]],
          [[1, 0, 0], [0, 0, 0], [0, 0, - 1]]]"
  by (simp add: eval_defs)

lemma form_3_2:
  "form_matrix_irrep_so3 (3 / 2) =
     Inr [[[0, complex_of_real (sqrt 3) / 2, 0, 0],
           [complex_of_real (sqrt 3) / 2, 0, 1, 0],
           [0, 1, 0, complex_of_real (sqrt 3) / 2],
           [0, 0, complex_of_real (sqrt 3) / 2, 0]],
          [[0, - (\<i> * complex_of_real (sqrt 3) / 2), 0, 0],
           [\<i> * complex_of_real (sqrt 3) / 2, 0, - \<i>, 0],
           [0, \<i>, 0, - (\<i> * complex_of_real (sqrt 3) / 2)],
           [0, 0, \<i> * complex_of_real (sqrt 3) / 2, 0]],
          [[3 / 2, 0, 0, 0], [0, 1 / 2, 0, 0], [0, 0, - (1 / 2), 0], [0, 0, 0, - (3 / 2)]]]"
  by (simp add: eval_defs)

lemma form_2:
  "form_matrix_irrep_so3 2 =
     Inr [[[0, 1, 0, 0, 0],
           [1, 0, complex_of_real (sqrt 6) / 2, 0, 0],
           [0, complex_of_real (sqrt 6) / 2, 0, complex_of_real (sqrt 6) / 2, 0],
           [0, 0, complex_of_real (sqrt 6) / 2, 0, 1],
           [0, 0, 0, 1, 0]],
          [[0, - \<i>, 0, 0, 0],
           [\<i>, 0, - (\<i> * complex_of_real (sqrt 6) / 2), 0, 0],
           [0, \<i> * complex_of_real (sqrt 6) / 2, 0, - (\<i> * complex_of_real (sqrt 6) / 2), 0],
           [0, 0, \<i> * complex_of_real (sqrt 6) / 2, 0, - \<i>],
           [0, 0, 0, \<i>, 0]],
          [[2, 0, 0, 0, 0], [0, 1, 0, 0, 0], [0, 0, 0, 0, 0], [0, 0, 0, - 1, 0],
           [0, 0, 0, 0, - 2]]]"
  by (simp add: eval_defs)

text \<open>
  Claim C1. For each spin \<open>j\<close> of \<open>0, 1/2, 1, 3/2, 2\<close> the call returns \<open>[J1, J2, J3]\<close> with
  \<open>[J1, J2] = i J3\<close>, \<open>[J2, J3] = i J1\<close> and \<open>[J3, J1] = i J2\<close>, as equations between matrices of
  exact complex numbers.
\<close>

theorem commutation_relations_tested_spins:
  "\<forall>j \<in> {0, 1 / 2, 1, 3 / 2, 2}. returns (form_matrix_irrep_so3 j) commutation_relations"
proof -
  have "returns (form_matrix_irrep_so3 0) commutation_relations"
    unfolding form_0 by (simp add: algebra_defs)
  moreover have "returns (form_matrix_irrep_so3 (1 / 2)) commutation_relations"
    unfolding form_half by (simp add: algebra_defs)
  moreover have "returns (form_matrix_irrep_so3 1) commutation_relations"
    unfolding form_1 by (simp add: algebra_defs of_real_sqrt_square)
  moreover have "returns (form_matrix_irrep_so3 (3 / 2)) commutation_relations"
    unfolding form_3_2 by (simp add: algebra_defs of_real_sqrt_square)
  moreover have "returns (form_matrix_irrep_so3 2) commutation_relations"
    unfolding form_2 by (simp add: algebra_defs of_real_sqrt_square)
  ultimately show ?thesis by simp
qed

theorem commutation_relations_tested_spins_witness:
  "returns (form_matrix_irrep_so3 (3 / 2)) commutation_relations"
  using commutation_relations_tested_spins by simp

text \<open>
  Claim C2. For \<open>j = 1/2\<close> the call returns \<open>J1 = [[0, 1/2], [1/2, 0]]\<close>,
  \<open>J2 = [[0, -i/2], [i/2, 0]]\<close> and \<open>J3 = [[1/2, 0], [0, -1/2]]\<close>, in this order.
\<close>

theorem form_matrix_irrep_so3_half:
  "form_matrix_irrep_so3 (1 / 2) =
     Inr [[[0, 1 / 2], [1 / 2, 0]],
          [[0, - \<i> / 2], [\<i> / 2, 0]],
          [[1 / 2, 0], [0, - 1 / 2]]]"
  by (simp add: form_half)

text \<open>
  Claim C4. For each spin \<open>j\<close> of \<open>0, 1/2, 1, 3/2, 2\<close> the call returns three square matrices
  of dimension \<open>D = 2j + 1\<close>, and the third of them is \<open>diag(j, j - 1, \<dots>, - j)\<close>.
\<close>

theorem dimension_and_J3_tested_spins:
  "\<forall>j \<in> {0, 1 / 2, 1, 3 / 2, 2}.
     returns (form_matrix_irrep_so3 j)
       (\<lambda>Js. length Js = 3 \<and> list_all (is_square (nat \<lfloor>2 * j + 1\<rfloor>)) Js
             \<and> Js ! 2 = diag_descending j)"
proof -
  let ?P = "\<lambda>j. returns (form_matrix_irrep_so3 j)
       (\<lambda>Js. length Js = 3 \<and> list_all (is_square (nat \<lfloor>2 * j + 1\<rfloor>)) Js
             \<and> Js ! 2 = diag_descending j)"
  have "?P 0" unfolding form_0 by (simp add: algebra_defs)
  moreover have "?P (1 / 2)" unfolding form_half by (simp add: algebra_defs)
  moreover have "?P 1" unfolding form_1 by (simp add: algebra_defs)
  moreover have "?P (3 / 2)" unfolding form_3_2 by (simp add: algebra_defs)
  moreover have "?P 2" unfolding form_2 by (simp add: algebra_defs)
  ultimately show ?thesis by simp
qed

theorem dimension_and_J3_tested_spins_witness:
  "returns (form_matrix_irrep_so3 (3 / 2))
     (\<lambda>Js. length Js = 3 \<and> list_all (is_square 4) Js
           \<and> Js ! 2 = [[3 / 2, 0, 0, 0], [0, 1 / 2, 0, 0], [0, 0, - 1 / 2, 0], [0, 0, 0, - 3 / 2]])"
proof -
  have "nat \<lfloor>2 * (3 / 2 :: real) + 1\<rfloor> = 4" by simp
  moreover have "diag_descending (3 / 2) =
      [[3 / 2, 0, 0, 0], [0, 1 / 2, 0, 0], [0, 0, - 1 / 2, 0], [0, 0, 0, - 3 / 2]]"
    by (simp add: diag_descending_def upt_conv_Cons eval_nat_numeral)
  ultimately show ?thesis
    using dimension_and_J3_tested_spins by simp
qed

text \<open>
  Claim C7. For each spin \<open>j\<close> of \<open>0, 1/2, 1, 3/2, 2\<close> the returned \<open>J1\<close> and \<open>J2\<close> equal their
  conjugate transposes.
\<close>

theorem hermitian_tested_spins:
  "\<forall>j \<in> {0, 1 / 2, 1, 3 / 2, 2}.
     returns (form_matrix_irrep_so3 j) (\<lambda>Js. hermitian (Js ! 0) \<and> hermitian (Js ! 1))"
proof -
  let ?P = "\<lambda>j. returns (form_matrix_irrep_so3 j) (\<lambda>Js. hermitian (Js ! 0) \<and> hermitian (Js ! 1))"
  have "?P 0" unfolding form_0 by (simp add: algebra_defs)
  moreover have "?P (1 / 2)" unfolding form_half by (simp add: algebra_defs)
  moreover have "?P 1" unfolding form_1 by (simp add: algebra_defs)
  moreover have "?P (3 / 2)" unfolding form_3_2 by (simp add: algebra_defs)
  moreover have "?P 2" unfolding form_2 by (simp add: algebra_defs)
  ultimately show ?thesis by simp
qed

theorem hermitian_tested_spins_witness:
  "returns (form_matrix_irrep_so3 2) (\<lambda>Js. hermitian (Js ! 0) \<and> hermitian (Js ! 1))"
  using hermitian_tested_spins by simp

text \<open>
  Claim C10. For \<open>j = 0\<close> the call returns three \<open>1 \<times> 1\<close> zero matrices. The one column
  equation has neither ladder term (both are the null ket), its solution gives 0 to the
  one unknown of each generator (\<open>x0\<close> of the first, \<open>x1\<close> of the second), and the diagonal
  entry of \<open>J3\<close> is \<open>m\<^sub>0 = 0\<close>.
\<close>

theorem form_matrix_irrep_so3_zero:
  "form_matrix_irrep_so3 0 = Inr [[[0]], [[0]], [[0]]]
   \<and> arange 0 (- 0 - 1) (- 1) = [0]
   \<and> m_plus1_state 0 [[1]] [0] 0 0 = Inr [0]
   \<and> m_minus1_state 0 [0] [[1]] [0] 0 0 = Inr [0]
   \<and> column_sol 0 2 0 [0] 2 [Sym 0, Sym 1] [[[Sym 0]], [[Sym 1]]] [[1]] [0] 0 0
       = Inr [(Sym 0, 0)]
   \<and> column_sol 1 (2 * \<i>) 0 [0] 2 [Sym 0, Sym 1] [[[Sym 0]], [[Sym 1]]] [[1]] [0] 0 0
       = Inr [(Sym 1, 0)]"
  by (simp add: form_0) (simp add: eval_defs)

subsection \<open>Spins that are not non-negative integers or half-integers\<close>

text \<open>
  The function has no check of its argument. What happens to such a \<open>j\<close> follows from
  the dimension \<open>D = int(2j + 1)\<close>, which rounds towards zero, and the length
  \<open>\<lceil>2j + 1\<rceil>\<close> of \<open>js\<close>, which rounds up. The lemmas of this section are about the exact
  \<open>2j + 1\<close>. In doubles \<^verbatim>\<open>2*j+1\<close> is rounded, so a \<open>j\<close> within rounding distance of an integer
  or half-integer (\<^verbatim>\<open>0.49999999999999994\<close>, or \<^verbatim>\<open>-1e-20\<close>) takes the path of that neighbour
  in the code; the theorem of the claim is therefore stated for inputs away from these.
\<close>

text \<open>A column equation against a basis vector has one unknown in each row.\<close>

lemma map2_nth:
  "length xs = n \<Longrightarrow> length ys = n \<Longrightarrow> map2 f xs ys = map (\<lambda>i. f (xs ! i) (ys ! i)) [0..<n]"
  by (rule nth_equalityI) simp_all

lemma filter_zero_terms:
  "filter (\<lambda>(s, c). c \<noteq> 0) (map2 (\<lambda>s x. (s, p * x)) xs (replicate n (0::complex))) = []"
proof -
  have "x = 0" if "(s, x) \<in> set (zip xs (replicate n (0::complex)))" for s x
    using set_zip_rightD[OF that] by simp
  then show ?thesis by (auto simp add: filter_empty_conv)
qed

lemma unit_vector_split:
  "k < D \<Longrightarrow> unit_vector D k = replicate k 0 @ 1 # replicate (D - Suc k) 0"
  by (rule nth_equalityI) (auto simp add: unit_vector_def nth_append nth_Cons split: nat.splits)

lemma equation_row:
  assumes "length row = D" and "k < D" and "p \<noteq> 0"
  shows "filter (\<lambda>(s, c). c \<noteq> 0) (map2 (\<lambda>s x. (s, p * x)) row (unit_vector D k)) = [(row ! k, p)]"
proof -
  have row: "row = take k row @ row ! k # drop (Suc k) row"
    using assms by (simp add: id_take_nth_drop)
  have lt: "length (take k row) = length (replicate k (0::complex))" using assms by simp
  have "map2 (\<lambda>s x. (s, p * x)) row (unit_vector D k)
      = map2 (\<lambda>s x. (s, p * x)) (take k row) (replicate k 0)
        @ (row ! k, p) # map2 (\<lambda>s x. (s, p * x)) (drop (Suc k) row) (replicate (D - Suc k) 0)"
    by (subst row, subst unit_vector_split[OF assms(2)], subst zip_append[OF lt]) simp
  then show ?thesis using assms(3) by (simp add: filter_zero_terms)
qed

lemma equation_unit_vector:
  assumes "is_square D G" and "length b = D" and "k < D" and "p \<noteq> 0"
  shows "equation p G (unit_vector D k) b = map (\<lambda>r. ([(G ! r ! k, p)], b ! r)) [0..<D]"
proof -
  have len: "length G = D" and rows: "\<And>r. r < D \<Longrightarrow> length (G ! r) = D"
    using assms(1) by (auto simp add: is_square_def list_all_length)
  show ?thesis
    unfolding equation_def map2_nth[OF len assms(2)]
    by (rule map_cong[OF refl]) (simp add: equation_row[OF rows assms(3,4)])
qed

lemma solve_rows_decoupled:
  assumes "p \<noteq> 0" and "\<And>r. r \<in> set rs \<Longrightarrow> s r \<in> set syms" and "inj_on s (set rs)"
    and "distinct rs"
  shows "solve_rows (map (\<lambda>r. ([(s r, p)], b r)) rs) syms = Some (map (\<lambda>r. (s r, - b r / p)) rs)"
  using assms(2-4)
proof (induction rs)
  case Nil
  then show ?case by simp
next
  case (Cons r rs)
  have ih: "solve_rows (map (\<lambda>r. ([(s r, p)], b r)) rs) syms = Some (map (\<lambda>r. (s r, - b r / p)) rs)"
    using Cons by (auto simp add: inj_on_def)
  have "s r \<notin> s ` set rs" using Cons.prems(2,3) by (auto simp add: inj_on_def)
  then have "s r \<notin> fst ` set (map (\<lambda>r. (s r, - b r / p)) rs)" by (simp add: image_image)
  then show ?case using assms(1) Cons.prems(1) by (simp add: ih)
qed

lemma column_loop_IndexError:
  assumes "\<And>i. i < d \<Longrightarrow> \<exists>sol. column_sol I p j js nv sl gens es nk (k + i) (ms ! i) = Inr sol"
    and "d < length ms"
    and "column_sol I p j js nv sl gens es nk (k + d) (ms ! d) = Inl IndexError"
  shows "column_loop I p j js nv sl gens es nk k ms = Inl IndexError"
  using assms
proof (induction d arbitrary: k ms)
  case 0
  then obtain m ms' where ms: "ms = m # ms'" by (cases ms) auto
  with 0 show ?case by (simp add: ebind_def)
next
  case (Suc d)
  then obtain m ms' where ms: "ms = m # ms'" by (cases ms) auto
  from Suc.prems(1)[of 0] obtain sol where
    sol: "column_sol I p j js nv sl gens es nk k m = Inr sol" by (auto simp add: ms)
  have "column_loop I p j js nv sl gens es nk (Suc k) ms' = Inl IndexError"
  proof (rule Suc.IH)
    fix i assume "i < d"
    then show "\<exists>sol. column_sol I p j js nv sl gens es nk (Suc k + i) (ms' ! i) = Inr sol"
      using Suc.prems(1)[of "Suc i"] by (simp add: ms)
  next
    show "d < length ms'" using Suc.prems(2) by (simp add: ms)
  next
    show "column_sol I p j js nv sl gens es nk (Suc k + d) (ms' ! d) = Inl IndexError"
      using Suc.prems(3) by (simp add: ms)
  qed
  then show ?case by (simp add: ms sol ebind_def)
qed


text \<open>Negative \<open>j\<close>: a negative dimension for \<open>j \<le> - 1\<close>, the dimension 0 and no column up to \<open>- 1/2\<close>.\<close>

lemma form_negative_dimension:
  assumes "j \<le> - 1"
  shows "form_matrix_irrep_so3 j = Inl ValueError"
proof -
  have "2 * j + 1 \<le> - 1" using assms by simp
  then have "\<lceil>2 * j + 1\<rceil> \<le> - 1" by linarith
  then have "trunc (2 * j + 1) < 0" using assms by (simp add: trunc_def)
  then show ?thesis by (simp add: form_matrix_irrep_so3_def eye_def ebind_def Let_def)
qed

lemma form_empty:
  assumes "- 1 < j" and "j \<le> - 1 / 2"
  shows "form_matrix_irrep_so3 j = Inr [[], [], []]"
proof -
  have c: "\<lceil>2 * j + 1\<rceil> = 0" using assms by linarith
  have D: "trunc (2 * j + 1) = 0"
  proof (cases "0 \<le> 2 * j + 1")
    case True
    then have "2 * j + 1 = 0" using assms by simp
    then show ?thesis by (simp add: trunc_def)
  next
    case False
    then show ?thesis using c by (simp add: trunc_def)
  qed
  have "(- j - 1 - j) / (- 1) = 2 * j + 1" by (simp add: field_simps)
  then have js: "arange j (- j - 1) (- 1) = []" by (simp only: arange_def c) simp
  show ?thesis
    unfolding form_matrix_irrep_so3_def D js
    by (simp add: eye_def zeros_def diag_def symbols_def initialize_generators_eq
        initialize_eigenstates_def shape1_def generator_def reassemble_mat_from_sols_def
        merged_dict_def Matrix_def applyfunc_def ebind_def Let_def)
qed

text \<open>
  The first matrix of unknowns holds \<open>x(r D + c)\<close> in row \<open>r\<close> and column \<open>c\<close>, and the
  symbols handed to the solver for it are \<open>x0 .. x(D\<^sup>2 - 1)\<close>.
\<close>

lemma first_generator_entry:
  assumes "r < D" and "c < D"
  shows "take D (drop (r * D) (drop (0 * (D * D)) (symbols (int D ^ 2 * 2)))) ! c = Sym (r * D + c)"
proof -
  have "Suc r * D \<le> D * D" using assms(1) by (simp only: mult_le_mono1 Suc_leI)
  then have lt: "r * D + c < D * D" using assms(2) by simp
  have nv: "nat (int D ^ 2 * 2) = 2 * (D * D)"
    by (simp add: power2_eq_square nat_mult_distrib flip: of_nat_mult)
  have lt2: "r * D + c < 2 * (D * D)" using lt by linarith
  have le2: "r * D \<le> 2 * (D * D)" using lt by linarith
  have "drop (r * D) (map Sym [0..<2 * (D * D)]) ! c = map Sym [0..<2 * (D * D)] ! (r * D + c)"
    using le2 by (simp only: nth_drop length_map length_upt diff_zero)
  also have "\<dots> = Sym (r * D + c)" using lt2 by simp
  finally show ?thesis using assms(2) by (simp add: symbols_def nv)
qed

lemma first_generator_square:
  "is_square D (map (\<lambda>r. take D (drop (r * D) (drop (0 * (D * D)) (symbols (int D ^ 2 * 2))))) [0..<D])"
proof -
  have nv: "nat (int D ^ 2 * 2) = 2 * (D * D)"
    by (simp add: power2_eq_square nat_mult_distrib flip: of_nat_mult)
  have "D * D \<le> length (drop (0 * (D * D)) (symbols (int D ^ 2 * 2)))"
    by (simp add: symbols_def nv)
  then show ?thesis by (rule is_square_chunks)
qed

lemma first_symbols:
  "take (nat ((int D ^ 2 * 2) div 2)) (symbols (int D ^ 2 * 2)) = map Sym [0..<D * D]"
proof -
  have nv: "nat (int D ^ 2 * 2) = 2 * (D * D)"
    by (simp add: power2_eq_square nat_mult_distrib flip: of_nat_mult)
  have h: "nat ((int D ^ 2 * 2) div 2) = D * D"
    by (simp add: power2_eq_square flip: of_nat_mult)
  show ?thesis unfolding h symbols_def nv by (simp add: take_map)
qed


text \<open>Column \<open>k < D\<close> of the first generator is solved whenever its right-hand side exists.\<close>

lemma column_sol_first_generator:
  assumes b: "rhs 2 j js es nk k m = Inr b" and len: "length b = D" and k: "k < D"
    and es: "es = map (unit_vector D) [0..<D]"
    and G0: "G0 = map (\<lambda>r. take D (drop (r * D) (drop (0 * (D * D)) (symbols (int D ^ 2 * 2))))) [0..<D]"
  shows "column_sol 0 2 j js (int D ^ 2 * 2) (symbols (int D ^ 2 * 2)) (G0 # rest) es nk k m
           = Inr (map (\<lambda>r. (Sym (r * D + k), - b ! r / 2)) [0..<D])"
proof -
  have sq: "is_square D G0" unfolding G0 by (rule first_generator_square)
  have entry: "G0 ! r ! k = Sym (r * D + k)" if "r < D" for r
    using that first_generator_entry[OF that k] unfolding G0 by simp
  have eq: "equation 2 G0 (unit_vector D k) b = map (\<lambda>r. ([(Sym (r * D + k), 2)], b ! r)) [0..<D]"
    unfolding equation_unit_vector[OF sq len k, of 2, simplified]
    by (rule map_cong[OF refl]) (simp add: entry)
  have mem: "Sym (r * D + k) \<in> set (map Sym [0..<D * D])" if "r \<in> set [0..<D]" for r
  proof -
    from that have "Suc r * D \<le> D * D" by (simp only: mult_le_mono1 Suc_leI set_upt atLeastLessThan_iff)
    then have "r * D + k < D * D" using k by simp
    then show ?thesis by simp
  qed
  have inj: "inj_on (\<lambda>r. Sym (r * D + k)) (set [0..<D])"
    using k by (auto simp add: inj_on_def)
  have sol: "solve_rows (map (\<lambda>r. ([(Sym (r * D + k), 2)], b ! r)) [0..<D]) (map Sym [0..<D * D])
      = Some (map (\<lambda>r. (Sym (r * D + k), - (b ! r) / 2)) [0..<D])"
    by (rule solve_rows_decoupled[where p = 2 and b = "\<lambda>r. b ! r"]) (use mem inj in simp_all)
  have ek: "py_index es (int k) = Inr (unit_vector D k)"
    using k unfolding es py_index_def by (simp add: Let_def)
  have g0: "py_index (G0 # rest) 0 = Inr G0" by (simp add: py_index_def)
  have sv: "solve (equation 2 G0 (unit_vector D k) b) (map Sym [0..<D * D])
      = Inr [map (\<lambda>r. (Sym (r * D + k), - (b ! r) / 2)) [0..<D]]"
    unfolding solve_def eq sol by simp
  have p0: "py_index [sol'] 0 = Inr sol'" for sol' :: "(symbol \<times> complex) list"
    by (simp add: py_index_def)
  show ?thesis
    unfolding column_sol_def b first_symbols
    by (simp add: ebind_def g0 ek sv p0)
qed


text \<open>
  For \<open>n < 2j < n + 1\<close> the dimension is \<open>D = n + 1\<close> and \<open>js\<close> has \<open>n + 2\<close> entries: the
  right-hand sides of the columns \<open>k \<le> n\<close> exist, and the column \<open>k = n + 1\<close> fails when it
  reads \<^verbatim>\<open>symbolic_eigenstates[k]\<close>.
\<close>

lemma length_smult [simp]: "length (smult c v) = length v"
  by (simp add: smult_def)

lemma length_unit_vector [simp]: "length (unit_vector D k) = D"
  by (simp add: unit_vector_def)

lemma rhs_defined:
  fixes n k :: nat
  assumes lo: "real n < 2 * j" and hi: "2 * j < real n + 1" and k: "k \<le> n"
    and js: "length js = n + 2"
    and es: "es = map (unit_vector (Suc n)) [0..<Suc n]"
    and nk: "nk = replicate (Suc n) 0"
    and m: "m = complex_of_real (j - real k)"
  shows "\<exists>b. rhs 2 j js es nk k m = Inr b \<and> length b = Suc n"
proof -
  have up: "\<exists>up. m_plus1_state j es nk k m = Inr up \<and> length up = Suc n"
  proof (cases "0 \<le> int k \<and> cle (m + 1) (complex_of_real j)")
    case True
    then have "0 < k" unfolding m cle_def by (cases k) auto
    then have "py_index es (int k - 1) = Inr (unit_vector (Suc n) (k - 1))"
      using k unfolding es py_index_def
      by (simp add: Let_def nat_diff_distrib' nth_map_upt del: upt_Suc)
    then show ?thesis unfolding m_plus1_state_def if_P[OF True] Let_def by (simp add: ebind_def)
  next
    case False
    show ?thesis unfolding m_plus1_state_def if_not_P[OF False] by (simp add: nk)
  qed
  have down: "\<exists>down. m_minus1_state j js es nk k m = Inr down \<and> length down = Suc n"
  proof (cases "int k \<le> int (length js) - 1 \<and> cle (complex_of_real (- j)) (m - 1)")
    case True
    then have "real k + 1 \<le> 2 * j" unfolding m cle_def by auto
    then have "real k + 1 < real n + 1" using hi by linarith
    then have "k < n" by simp
    then have "py_index es (int k + 1) = Inr (unit_vector (Suc n) (k + 1))"
      unfolding es py_index_def
      by (simp add: Let_def nat_add_distrib nth_map_upt del: upt_Suc)
    then show ?thesis unfolding m_minus1_state_def if_P[OF True] Let_def by (simp add: ebind_def)
  next
    case False
    show ?thesis unfolding m_minus1_state_def if_not_P[OF False] by (simp add: nk)
  qed
  from up down show ?thesis
    unfolding rhs_def by (auto simp add: ebind_def vsub_def vneg_def)
qed

lemma column_sol_past_the_end:
  fixes n :: nat
  assumes lo: "real n < 2 * j" and hi: "2 * j < real n + 1"
    and js: "length js = n + 2"
    and es: "es = map (unit_vector (Suc n)) [0..<Suc n]"
    and m: "m = complex_of_real (j - real (Suc n))"
  shows "column_sol 0 2 j js nv syms (G0 # rest) es nk (Suc n) m = Inl IndexError"
proof -
  have c1: "0 \<le> int (Suc n) \<and> cle (m + 1) (complex_of_real j)"
    unfolding m cle_def by auto
  have i1: "py_index es (int (Suc n) - 1) = Inr (unit_vector (Suc n) n)"
    unfolding es py_index_def by (simp add: Let_def nth_map_upt del: upt_Suc)
  have up: "\<exists>up. m_plus1_state j es nk (Suc n) m = Inr up"
    unfolding m_plus1_state_def if_P[OF c1] Let_def i1 by (simp add: ebind_def)
  have c2: "\<not> (int (Suc n) \<le> int (length js) - 1 \<and> cle (complex_of_real (- j)) (m - 1))"
    unfolding m cle_def using hi by auto
  have down: "m_minus1_state j js es nk (Suc n) m = Inr nk"
    unfolding m_minus1_state_def if_not_P[OF c2] by (rule refl)
  from up obtain b where b: "rhs 2 j js es nk (Suc n) m = Inr b"
    unfolding rhs_def down by (auto simp add: ebind_def)
  have g0: "py_index (G0 # rest) (int 0) = Inr G0" by (simp add: py_index_def)
  have ek: "py_index es (int (Suc n)) = Inl IndexError"
    unfolding es py_index_def by (simp add: Let_def del: upt_Suc)
  show ?thesis
    unfolding column_sol_def b Let_def g0 ek by (simp add: ebind_def)
qed

lemma length_symbols: "length (symbols (int D ^ 2 * 2)) = 2 * (D * D)"
  by (simp add: symbols_def power2_eq_square nat_mult_distrib flip: of_nat_mult)

lemma form_fails_not_half_integer:
  assumes pos: "0 < j" and frac: "2 * j \<notin> \<int>"
  shows "form_matrix_irrep_so3 j = Inl IndexError"
proof -
  define n where "n = nat \<lfloor>2 * j\<rfloor>"
  define D where "D = Suc n"
  have fl: "\<lfloor>2 * j\<rfloor> = int n" using pos by (simp add: n_def)
  have "real_of_int \<lfloor>2 * j\<rfloor> \<noteq> 2 * j" using frac by (metis Ints_of_int)
  then have lo: "real n < 2 * j" using fl by (metis of_int_floor_le of_int_of_nat_eq order_less_le)
  have hi: "2 * j < real n + 1" using fl by linarith
  have tr: "trunc (2 * j + 1) = int D"
  proof -
    have "\<lfloor>2 * j + 1\<rfloor> = int n + 1" using fl by simp
    then show ?thesis using pos by (simp add: trunc_def D_def)
  qed
  have c: "nat \<lceil>(- j - 1 - j) / (- 1)\<rceil> = n + 2"
  proof -
    have e: "(- j - 1 - j) / (- 1) = 2 * j + 1" by (simp add: field_simps)
    have ce: "\<lceil>2 * j + 1\<rceil> = int (n + 2)" using lo hi by linarith
    show ?thesis unfolding e ce by (simp only: nat_int)
  qed
  define js where "js = arange j (- j - 1) (- 1)"
  have js: "js = map (\<lambda>i. complex_of_real (j - real i)) [0..<n + 2]"
    unfolding js_def arange_def c by simp
  have len_js: "length js = n + 2" unfolding js by simp
  have js_nth: "js ! i = complex_of_real (j - real i)" if "i < n + 2" for i
    using that unfolding js by (simp only: nth_map_upt) simp
  obtain eigenstates where eye: "eye (int D) = Inr eigenstates"
    by (simp add: eye_def)
  define es where "es = initialize_eigenstates eigenstates"
  have Dn: "int D = int n + 1" by (simp add: D_def)
  have es: "es = map (unit_vector (Suc n)) [0..<Suc n]"
    unfolding es_def using eye[unfolded Dn] by (rule eye_eigenstates)
  define nk :: "complex list" where "nk = replicate (Suc n) 0"
  have zeros: "zeros (int D) = Inr nk" unfolding zeros_def nat_int nk_def D_def by simp
  define nv where "nv = int D ^ 2 * 2"
  define G where "G = (\<lambda>g. map (\<lambda>i. take D (drop (i * D) (drop (g * (D * D)) (symbols nv)))) [0..<D])"
  have nvn: "2 * (D * D) \<le> length (symbols nv)"
    unfolding nv_def length_symbols by (rule le_refl)
  have gens: "initialize_generators (int D) 0 [symbols nv]
      = Inr (G 0 # [G 1], [symbols nv, drop (2 * (D * D)) (symbols nv)])"
    using nvn unfolding G_def
    by (simp add: initialize_generators_eq numeral_2_eq_2)
  have ok: "\<exists>sol. column_sol 0 2 j js nv (symbols nv) (G 0 # [G 1]) es nk (0 + i) (js ! i) = Inr sol"
    if "i < Suc n" for i
  proof -
    from that have i: "i \<le> n" by simp
    have iD: "i < D" using that by (simp add: D_def)
    have m: "js ! i = complex_of_real (j - real i)" using that by (simp add: js_nth)
    from rhs_defined[OF lo hi i len_js es nk_def m] obtain b
      where b: "rhs 2 j js es nk i (js ! i) = Inr b" and lb: "length b = D"
      unfolding D_def by blast
    have "column_sol 0 2 j js (int D ^ 2 * 2) (symbols (int D ^ 2 * 2)) (G 0 # [G 1])
            es nk i (js ! i) = Inr (map (\<lambda>r. (Sym (r * D + i), - b ! r / 2)) [0..<D])"
      using b lb iD es[folded D_def] by (rule column_sol_first_generator) (simp add: G_def nv_def)
    then show ?thesis by (simp add: nv_def)
  qed
  have bad: "column_sol 0 2 j js nv (symbols nv) (G 0 # [G 1]) es nk (0 + Suc n) (js ! Suc n)
      = Inl IndexError"
  proof -
    have "js ! Suc n = complex_of_real (j - real (Suc n))" by (rule js_nth) simp
    from column_sol_past_the_end[OF lo hi len_js es this] show ?thesis by simp
  qed
  have loop: "column_loop 0 2 j js nv (symbols nv) (G 0 # [G 1]) es nk 0 js = Inl IndexError"
  proof (rule column_loop_IndexError)
    show "Suc n < length js" unfolding len_js by simp
  qed (use ok bad in blast)+
  have gen: "generator 0 2 j (int D) js nv (symbols nv) (G 0 # [G 1]) es nk = Inl IndexError"
    unfolding generator_def loop by (simp add: ebind_def)
  show ?thesis
    unfolding form_matrix_irrep_so3_def tr Let_def js_def[symmetric] nv_def[symmetric] eye
    by (simp add: ebind_def gens zeros es_def[symmetric] gen[unfolded One_nat_def])
qed

text \<open>
  Claim C3, as the code has it. Nothing validates \<open>j\<close>, and not every \<open>j\<close> that is not a
  non-negative integer or half-integer is rejected: \<open>j = - 1/2\<close> returns three empty matrices.
  The two examples of the specification do end without a result, through errors raised in
  the course of the computation: \<open>j = - 1\<close> fails with \<open>ValueError\<close> (the identity matrix of
  dimension \<open>- 1\<close>), and \<open>j = 2/3\<close> fails with \<open>IndexError\<close> in the column loop of the first
  generator (\<open>js\<close> has three entries, the basis two). The second holds for every \<open>j\<close> from
  \<open>0.6\<close> to \<open>0.7\<close>, a range that holds the fraction \<open>2/3\<close> and the double nearest to it and
  in which \<open>2j + 1\<close> stays between \<open>2.2\<close> and \<open>2.4\<close>.
\<close>

theorem invalid_spin_not_validated:
  "form_matrix_irrep_so3 (- 1) = Inl ValueError
   \<and> (\<forall>j. 3 / 5 \<le> j \<and> j \<le> 7 / 10 \<longrightarrow> form_matrix_irrep_so3 j = Inl IndexError)
   \<and> form_matrix_irrep_so3 (- 1 / 2) = Inr [[], [], []]"
proof (intro conjI allI impI)
  show "form_matrix_irrep_so3 (- 1) = Inl ValueError"
    by (rule form_negative_dimension) simp
next
  fix j :: real
  assume range: "3 / 5 \<le> j \<and> j \<le> 7 / 10"
  have "2 * j \<notin> \<int>"
  proof
    assume "2 * j \<in> \<int>"
    then obtain z :: int where z: "2 * j = real_of_int z" by (auto elim: Ints_cases)
    have "real_of_int 1 < real_of_int z" and "real_of_int z < real_of_int 2"
      using range unfolding z[symmetric] by simp_all
    then have "1 < z" and "z < 2" by (simp_all only: of_int_less_iff)
    then show False by simp
  qed
  moreover have "0 < j" using range by simp
  ultimately show "form_matrix_irrep_so3 j = Inl IndexError"
    by (rule form_fails_not_half_integer[rotated])
next
  show "form_matrix_irrep_so3 (- 1 / 2) = Inr [[], [], []]"
    by (rule form_empty) simp_all
qed

theorem invalid_spin_not_validated_witness:
  "form_matrix_irrep_so3 (2 / 3) = Inl IndexError"
  using invalid_spin_not_validated by simp

text \<open>
  The claim as the specification states it fails at \<open>j = - 1/2\<close>, which is negative and
  is not rejected: the call returns three \<open>0 \<times> 0\<close> matrices.
\<close>

theorem negative_half_spin_is_accepted:
  "form_matrix_irrep_so3 (- 1 / 2) = Inr [[], [], []]"
  by (rule form_empty) simp_all

end
